theory Spec2Isabelle
  imports Main "HOL-Library.Word"
begin

section \<open>The JavaScript values the package computes with\<close>

text \<open>
  The package (\<^verbatim>\<open>src/luhn.ts\<close>, \<^verbatim>\<open>src/parser.ts\<close>, \<^verbatim>\<open>src/types.ts\<close>) works on
  JavaScript strings, numbers and \<^verbatim>\<open>Date\<close> objects.

  \<^item> A string is a sequence of UTF-16 code units: \<open>length\<close>, \<open>s[i]\<close>, \<open>slice\<close>, \<open>trim\<close>
    and the regular expression \<^verbatim>\<open>\d\<close> all work on code units.
  \<^item> The numbers that occur (digit values, two- and four-digit fields, years, ages, the
    checksum of at most a few thousand digits) are small integers on which IEEE doubles
    are exact; they are modelled as \<open>int\<close>. \<^verbatim>\<open>NaN\<close> is the value \<open>None\<close> of
    \<open>int option\<close>.
\<close>

type_synonym code_unit = "16 word"
type_synonym js_string = "code_unit list"

text \<open>An ASCII literal as a JavaScript string: \<open>js ''90''\<close> is the string \<^verbatim>\<open>"90"\<close>.\<close>

definition js :: "string \<Rightarrow> js_string" where
  "js s = map of_char s"

text \<open>
  ECMAScript's \<^verbatim>\<open>WhiteSpace\<close> and \<^verbatim>\<open>LineTerminator\<close> code points: TAB, LF, VT, FF, CR,
  SP, NBSP, U+1680, U+2000 to U+200A, LS, PS, U+202F, U+205F, U+3000 and the BOM. They
  are what \<^verbatim>\<open>String.prototype.trim\<close> strips and what \<^verbatim>\<open>parseInt\<close> skips in front.
\<close>

definition isWhiteSpace :: "code_unit \<Rightarrow> bool" where
  "isWhiteSpace c \<longleftrightarrow>
     c = 0x09 \<or> c = 0x0A \<or> c = 0x0B \<or> c = 0x0C \<or> c = 0x0D \<or> c = 0x20 \<or> c = 0xA0 \<or>
     c = 0x1680 \<or> (0x2000 \<le> c \<and> c \<le> 0x200A) \<or> c = 0x2028 \<or> c = 0x2029 \<or>
     c = 0x202F \<or> c = 0x205F \<or> c = 0x3000 \<or> c = 0xFEFF"

text \<open>
  The ASCII digits \<^verbatim>\<open>0\<close> to \<^verbatim>\<open>9\<close> (U+0030 to U+0039): what \<^verbatim>\<open>\d\<close> matches in a
  JavaScript regular expression and what \<^verbatim>\<open>parseInt(_, 10)\<close> accepts as a digit.
\<close>

definition isDigit :: "code_unit \<Rightarrow> bool" where
  "isDigit c \<longleftrightarrow> 0x30 \<le> c \<and> c \<le> 0x39"

definition digitValue :: "code_unit \<Rightarrow> int" where
  "digitValue c = uint c - 48"

text \<open>\<^verbatim>\<open>s.trim()\<close>: white space removed from both ends.\<close>

definition trim :: "js_string \<Rightarrow> js_string" where
  "trim s = rev (dropWhile isWhiteSpace (rev (dropWhile isWhiteSpace s)))"

text \<open>
  \<^verbatim>\<open>s.slice(a, b)\<close> for the non-negative constant bounds the parser uses: the code units
  from index \<open>a\<close> up to, not including, index \<open>b\<close>, both clamped to the length; empty
  when \<open>b \<le> a\<close>.
\<close>

definition slice :: "js_string \<Rightarrow> nat \<Rightarrow> nat \<Rightarrow> js_string" where
  "slice s a b = take (b - a) (drop a s)"

text \<open>
  \<^verbatim>\<open>s[i]\<close>: the one-unit string at index \<open>i\<close>, or \<^verbatim>\<open>undefined\<close> (here \<open>None\<close>) past
  the end.
\<close>

definition at :: "js_string \<Rightarrow> nat \<Rightarrow> js_string option" where
  "at s i = (if i < length s then Some [s ! i] else None)"

text \<open>
  \<^verbatim>\<open>parseInt(s, 10)\<close>, following ECMAScript: skip leading white space, read one optional
  sign, take the longest run of decimal digits; \<^verbatim>\<open>NaN\<close> when that run is empty, else
  the signed number it denotes. Whatever follows the digits is ignored.
\<close>

definition decimal :: "js_string \<Rightarrow> int" where
  "decimal ds = foldl (\<lambda>n c. n * 10 + digitValue c) 0 ds"

definition parseInt :: "js_string \<Rightarrow> int option" where
  "parseInt s =
     (let t = dropWhile isWhiteSpace s;
          sign = (if t \<noteq> [] \<and> hd t = 0x2D then - 1 else 1);
          u = (if t \<noteq> [] \<and> (hd t = 0x2B \<or> hd t = 0x2D) then tl t else t);
          z = takeWhile isDigit u
      in if z = [] then None else Some (sign * decimal z))"

section \<open>The Luhn check (\<^verbatim>\<open>src/luhn.ts\<close>)\<close>

text \<open>
  \<^verbatim>\<open>
  export function luhn(digits: string): boolean {
    let sum = 0;
    let shouldDouble = false;
    for (let i = digits.length - 1; i >= 0; i--) {
      const char = digits[i];
      if (char === undefined) return false;
      let digit = parseInt(char, 10);
      if (isNaN(digit)) return false;
      if (shouldDouble) {
        digit *= 2;
        if (digit > 9) digit -= 9;
      }
      sum += digit;
      shouldDouble = !shouldDouble;
    }
    return sum % 10 === 0;
  }
  \<close>
  The loop is \<open>luhn_loop\<close>; its counter is the number of characters still to visit, so
  the equation for \<open>Suc i\<close> is the loop body at index \<open>i\<close> and the equation for \<open>0\<close> is
  the code after the loop; the running \<^verbatim>\<open>sum\<close> is the argument \<open>s\<close>.
  \<^verbatim>\<open>sum % 10 === 0\<close> holds exactly when 10 divides the sum, whichever way the
  remainder of a negative number is rounded.
\<close>

fun luhn_loop :: "js_string \<Rightarrow> nat \<Rightarrow> int \<Rightarrow> bool \<Rightarrow> bool" where
  "luhn_loop digits 0 s shouldDouble = (s mod 10 = 0)"
| "luhn_loop digits (Suc i) s shouldDouble =
     (case at digits i of
        None \<Rightarrow> False
      | Some char \<Rightarrow>
          (case parseInt char of
             None \<Rightarrow> False
           | Some digit \<Rightarrow>
               (let digit' =
                      (if shouldDouble
                       then (let doubled = digit * 2 in if doubled > 9 then doubled - 9 else doubled)
                       else digit)
                in luhn_loop digits i (s + digit') (\<not> shouldDouble))))"

definition luhn :: "js_string \<Rightarrow> bool" where
  "luhn digits = luhn_loop digits (length digits) 0 False"

text \<open>
  The weighted sum as the specification words it: scanning from the right (position 0
  is the last character), every second digit, starting with the second from the right,
  is doubled, and 9 is subtracted from a doubled value above 9.
\<close>

definition weight :: "nat \<Rightarrow> int \<Rightarrow> int" where
  "weight k d = (if odd k then (if 2 * d > 9 then 2 * d - 9 else 2 * d) else d)"

definition weightedSum :: "js_string \<Rightarrow> int" where
  "weightedSum s = (\<Sum>k < length s. weight k (digitValue (rev s ! k)))"

text \<open>
  The same sum by recursion along the scan, for the proof: \<open>wsum dbl ds\<close> adds the
  digit values \<open>ds\<close>, listed from the right, doubling the first when \<open>dbl\<close> holds
  and every second one after it.
\<close>

fun wsum :: "bool \<Rightarrow> int list \<Rightarrow> int" where
  "wsum dbl [] = 0"
| "wsum dbl (d # ds) =
     (if dbl then (if 2 * d > 9 then 2 * d - 9 else 2 * d) else d) + wsum (\<not> dbl) ds"

section \<open>Dates\<close>

text \<open>
  A \<^verbatim>\<open>Date\<close> is read by the package only through \<^verbatim>\<open>getFullYear()\<close>, \<^verbatim>\<open>getMonth()\<close>
  (0 for January) and \<^verbatim>\<open>getDate()\<close>, and through the comparison \<^verbatim>\<open>date > new Date()\<close>
  of two time values. All of them work in the local time of the host. A date is
  modelled by its local calendar fields and the milliseconds elapsed since local
  midnight; time values are ordered as these fields are, lexicographically (a change of
  the clock that sets local time back across midnight is not modelled). The parser only
  builds dates of the years 1900 to 2099, far inside the range a \<^verbatim>\<open>Date\<close> can hold.
\<close>

record JSDate =
  getFullYear :: int
  getMonth :: int
  getDate :: int
  msSinceMidnight :: nat

definition isLeapYear :: "int \<Rightarrow> bool" where
  "isLeapYear y \<longleftrightarrow> (y mod 4 = 0 \<and> y mod 100 \<noteq> 0) \<or> y mod 400 = 0"

text \<open>The length of month \<open>m\<close> (0 for January) of year \<open>y\<close>.\<close>

definition daysInMonth :: "int \<Rightarrow> int \<Rightarrow> int" where
  "daysInMonth y m =
     (if m = 1 then (if isLeapYear y then 29 else 28)
      else if m = 3 \<or> m = 5 \<or> m = 8 \<or> m = 10 then 30
      else 31)"

text \<open>
  ECMAScript's \<^verbatim>\<open>MakeDay(year, month, date)\<close> followed by the conversion of the day
  number back to calendar fields: a month outside 0..11 carries into the year, and a
  day outside the month carries into the following or the preceding months (the 30th
  of February is the 1st or 2nd of March).
\<close>

function makeDay :: "int \<Rightarrow> int \<Rightarrow> int \<Rightarrow> int \<times> int \<times> int" where
  "makeDay y m d =
     (if m < 0 \<or> 11 < m then makeDay (y + m div 12) (m mod 12) d
      else if d < 1 then
        (if m = 0 then makeDay (y - 1) 11 (d + daysInMonth (y - 1) 11)
         else makeDay y (m - 1) (d + daysInMonth y (m - 1)))
      else if daysInMonth y m < d then
        (if m = 11 then makeDay (y + 1) 0 (d - daysInMonth y m)
         else makeDay y (m + 1) (d - daysInMonth y m))
      else (y, m, d))"
  by pat_completeness auto
termination
  by (relation "measures
        [\<lambda>(y, m, d). if m < 0 \<or> 11 < m then 1 else 0,
         \<lambda>(y, m, d). if d < 1 then 1 else 0,
         \<lambda>(y, m, d). if d < 1 then nat (1 - d) else nat d]")
     (auto simp: daysInMonth_def)

declare makeDay.simps [simp del]

text \<open>
  The host's time zone. Where a zone changed its offset from UTC by a day (a move
  across the date line), local time skipped a calendar day: in \<^verbatim>\<open>Pacific/Apia\<close> the
  29th of December 2011 was followed by the 31st. A zone is given by the local days it
  skipped: \<open>zone y m d\<close> is the number of consecutive local days, from day \<open>d\<close> of month
  \<open>m\<close> (0 for January) of year \<open>y\<close> on, that local time does not have, and 0 when that
  day exists.
\<close>

type_synonym time_zone = "int \<Rightarrow> int \<Rightarrow> int \<Rightarrow> nat"

text \<open>A zone that never skipped a day, as \<^verbatim>\<open>Africa/Johannesburg\<close>, and \<^verbatim>\<open>Pacific/Apia\<close>.\<close>

definition noSkippedDay :: time_zone where
  "noSkippedDay y m d = 0"

definition Pacific_Apia :: time_zone where
  "Pacific_Apia y m d = (if y = 2011 \<and> m = 11 \<and> d = 30 then 1 else 0)"

text \<open>
  \<^verbatim>\<open>new Date(year, monthIndex, day)\<close>: local midnight of the day \<^verbatim>\<open>MakeDay\<close> yields. A
  year from 0 to 99 stands for 1900 + year, as the constructor has it. When local time
  has no such day, the instant the constructor finds (it reads the missing local time
  with the offset before the change) is local midnight of the first day after the
  gap: in \<^verbatim>\<open>Pacific/Apia\<close>, \<^verbatim>\<open>new Date(2011, 11, 30).getDate()\<close> is 31.
\<close>

definition newDate :: "time_zone \<Rightarrow> int \<Rightarrow> int \<Rightarrow> int \<Rightarrow> JSDate" where
  "newDate zone year monthIndex day =
     (case makeDay (if 0 \<le> year \<and> year \<le> 99 then 1900 + year else year) monthIndex day of
        (y, m, d) \<Rightarrow>
          (case makeDay y m (d + int (zone y m d)) of
             (y', m', d') \<Rightarrow>
               \<lparr>getFullYear = y', getMonth = m', getDate = d', msSinceMidnight = 0\<rparr>))"

text \<open>\<^verbatim>\<open>a > b\<close> on two dates: the comparison of their time values.\<close>

definition laterThan :: "JSDate \<Rightarrow> JSDate \<Rightarrow> bool" where
  "laterThan a b \<longleftrightarrow>
     getFullYear b < getFullYear a \<or>
     (getFullYear a = getFullYear b \<and>
       (getMonth b < getMonth a \<or>
        (getMonth a = getMonth b \<and>
          (getDate b < getDate a \<or>
           (getDate a = getDate b \<and> msSinceMidnight b < msSinceMidnight a)))))"

section \<open>The result types (\<^verbatim>\<open>src/types.ts\<close>)\<close>

datatype Gender = male | female

datatype CitizenshipStatus = citizen | permanent_resident

datatype InvalidReason =
  INVALID_FORMAT | INVALID_DATE | INVALID_CITIZENSHIP_DIGIT | INVALID_CHECKSUM

record RawSegments =
  yearPart :: js_string
  monthPart :: js_string
  dayPart :: js_string
  genderSequence :: js_string
  citizenshipDigit :: js_string
  legacyDigit :: js_string
  checksumDigit :: js_string

text \<open>
  \<^verbatim>\<open>type IDResult = ParsedID | InvalidID\<close>, a union discriminated by the field
  \<^verbatim>\<open>valid\<close>: the discriminator \<open>valid\<close> is true on a \<open>ParsedID\<close> and false on an
  \<open>InvalidID\<close>; both carry \<open>idNumber\<close>.
\<close>

datatype IDResult =
    valid: ParsedID
      (idNumber: js_string)
      (dateOfBirth: JSDate)
      (age: int)
      (gender: Gender)
      (citizenship: CitizenshipStatus)
      (isCitizen: bool)
      (segments: RawSegments)
  | InvalidID
      (idNumber: js_string)
      (reason: InvalidReason)

section \<open>The parser (\<^verbatim>\<open>src/parser.ts\<close>)\<close>

text \<open>
  \<^verbatim>\<open>const ID_REGEX = /^\d{13}$/\<close> and \<^verbatim>\<open>ID_REGEX.test(id)\<close>: from the start of the
  string, \<open>matchDigits 13\<close> consumes thirteen digits one by one and fails on the first
  code unit that is not a digit or is missing; \<^verbatim>\<open>$\<close> (no multiline flag) then asks for
  the end of the string.
\<close>

fun matchDigits :: "nat \<Rightarrow> js_string \<Rightarrow> js_string option" where
  "matchDigits 0 s = Some s"
| "matchDigits (Suc n) [] = None"
| "matchDigits (Suc n) (c # cs) = (if isDigit c then matchDigits n cs else None)"

definition ID_REGEX_test :: "js_string \<Rightarrow> bool" where
  "ID_REGEX_test s \<longleftrightarrow> matchDigits 13 s = Some []"

definition extractSegments :: "js_string \<Rightarrow> RawSegments" where
  "extractSegments idn =
     \<lparr>yearPart = slice idn 0 2,
      monthPart = slice idn 2 4,
      dayPart = slice idn 4 6,
      genderSequence = slice idn 6 10,
      citizenshipDigit = slice idn 10 11,
      legacyDigit = slice idn 11 12,
      checksumDigit = slice idn 12 13\<rparr>"

text \<open>
  The functions that call \<^verbatim>\<open>new Date()\<close> (\<^verbatim>\<open>resolveYear\<close>, \<^verbatim>\<open>parseDate\<close>,
  \<^verbatim>\<open>calculateAge\<close>) take the clock's reading as the argument \<open>now\<close>; \<open>parse\<close> hands
  one reading to all three, that is, the clock is taken not to pass midnight during
  a call. \<open>parseDate\<close>, which builds a date, takes the host's time zone as well.
\<close>

text \<open>
  \<^verbatim>\<open>
  function resolveYear(yy: number): number {
    const currentYear = new Date().getFullYear();
    const year2000 = 2000 + yy;
    const year1900 = 1900 + yy;
    return year2000 <= currentYear ? year2000 : year1900;
  }
  \<close>
\<close>

definition resolveYear :: "JSDate \<Rightarrow> int \<Rightarrow> int" where
  "resolveYear now yy =
     (let currentYear = getFullYear now;
          year2000 = 2000 + yy;
          year1900 = 1900 + yy
      in if year2000 \<le> currentYear then year2000 else year1900)"

text \<open>
  \<^verbatim>\<open>
  function parseDate(segments: RawSegments): Date | null {
    const yy = parseInt(segments.yearPart, 10);
    const mm = parseInt(segments.monthPart, 10);
    const dd = parseInt(segments.dayPart, 10);
    if (isNaN(yy) || isNaN(mm) || isNaN(dd)) return null;
    if (mm < 1 || mm > 12) return null;
    if (dd < 1 || dd > 31) return null;
    const year = resolveYear(yy);
    const date = new Date(year, mm - 1, dd);
    if (date.getFullYear() !== year || date.getMonth() !== mm - 1 || date.getDate() !== dd) {
      return null;
    }
    if (date > new Date()) return null;
    return date;
  }
  \<close>
  The \<^verbatim>\<open>isNaN\<close> branch is the last line of the case distinction.
\<close>

definition parseDate :: "time_zone \<Rightarrow> JSDate \<Rightarrow> RawSegments \<Rightarrow> JSDate option" where
  "parseDate zone now segments' =
     (case (parseInt (yearPart segments'), parseInt (monthPart segments'), parseInt (dayPart segments')) of
        (Some yy, Some mm, Some dd) \<Rightarrow>
          if mm < 1 \<or> mm > 12 then None
          else if dd < 1 \<or> dd > 31 then None
          else
            (let year = resolveYear now yy;
                 date = newDate zone year (mm - 1) dd
             in if getFullYear date \<noteq> year \<or> getMonth date \<noteq> mm - 1 \<or> getDate date \<noteq> dd
                then None
                else if laterThan date now then None
                else Some date)
      | _ \<Rightarrow> None)"

text \<open>
  \<^verbatim>\<open>
  function calculateAge(dob: Date): number {
    const today = new Date();
    let age = today.getFullYear() - dob.getFullYear();
    const hasHadBirthdayThisYear =
      today.getMonth() > dob.getMonth() ||
      (today.getMonth() === dob.getMonth() && today.getDate() >= dob.getDate());
    if (!hasHadBirthdayThisYear) age--;
    return age;
  }
  \<close>
\<close>

definition calculateAge :: "JSDate \<Rightarrow> JSDate \<Rightarrow> int" where
  "calculateAge now dob =
     (let today = now;
          age' = getFullYear today - getFullYear dob;
          hasHadBirthdayThisYear =
            (getMonth today > getMonth dob \<or>
             (getMonth today = getMonth dob \<and> getDate today \<ge> getDate dob))
      in if \<not> hasHadBirthdayThisYear then age' - 1 else age')"

definition invalid :: "js_string \<Rightarrow> InvalidReason \<Rightarrow> IDResult" where
  "invalid idNumber' reason' = InvalidID idNumber' reason'"

text \<open>
  \<^verbatim>\<open>
  export function parse(idNumber: string): IDResult {
    const id = String(idNumber).trim();
    if (!ID_REGEX.test(id)) {
      return invalid(id, "INVALID_FORMAT");
    }
    const segments = extractSegments(id);
    const dateOfBirth = parseDate(segments);
    if (dateOfBirth === null) {
      return invalid(id, "INVALID_DATE");
    }
    const citizenshipDigit = segments.citizenshipDigit;
    if (citizenshipDigit !== "0" && citizenshipDigit !== "1" && citizenshipDigit !== "2") {
      return invalid(id, "INVALID_CITIZENSHIP_DIGIT");
    }
    if (!luhn(id)) {
      return invalid(id, "INVALID_CHECKSUM");
    }
    const genderSequence = parseInt(segments.genderSequence, 10);
    const gender: Gender = genderSequence >= 5000 ? "male" : "female";
    const citizenship: CitizenshipStatus =
      citizenshipDigit === "0" ? "citizen" : "permanent_resident";
    const age = calculateAge(dateOfBirth);
    const parsed: ParsedID = {
      valid: true, idNumber: id, dateOfBirth, age, gender, citizenship,
      isCitizen: citizenshipDigit === "0", segments,
    };
    return parsed;
  }
  \<close>
  \<^verbatim>\<open>String(idNumber)\<close> is the identity on a string. The local \<^verbatim>\<open>id\<close> is \<open>idn\<close>
  here, and a primed name is the source's local of that name. A \<^verbatim>\<open>NaN\<close> gender
  sequence would compare false with 5000 and give \<^verbatim>\<open>"female"\<close>.
\<close>

definition parse :: "time_zone \<Rightarrow> JSDate \<Rightarrow> js_string \<Rightarrow> IDResult" where
  "parse zone now idNumber' =
     (let idn = trim idNumber'
      in if \<not> ID_REGEX_test idn then invalid idn INVALID_FORMAT
         else
           (let segments' = extractSegments idn
            in case parseDate zone now segments' of
                 None \<Rightarrow> invalid idn INVALID_DATE
               | Some dateOfBirth' \<Rightarrow>
                   (let citizenshipDigit' = citizenshipDigit segments'
                    in if citizenshipDigit' \<noteq> js ''0'' \<and>
                          citizenshipDigit' \<noteq> js ''1'' \<and>
                          citizenshipDigit' \<noteq> js ''2''
                       then invalid idn INVALID_CITIZENSHIP_DIGIT
                       else if \<not> luhn idn then invalid idn INVALID_CHECKSUM
                       else
                         (let genderSequence' = parseInt (genderSequence segments');
                              gender' =
                                (case genderSequence' of
                                   Some n \<Rightarrow> if n \<ge> 5000 then male else female
                                 | None \<Rightarrow> female);
                              citizenship' =
                                (if citizenshipDigit' = js ''0'' then citizen
                                 else permanent_resident);
                              age' = calculateAge now dateOfBirth'
                          in ParsedID idn dateOfBirth' age' gender' citizenship'
                               (citizenshipDigit' = js ''0'') segments'))))"

definition isValid :: "time_zone \<Rightarrow> JSDate \<Rightarrow> js_string \<Rightarrow> bool" where
  "isValid zone now idNumber' = valid (parse zone now idNumber')"

definition getDateOfBirth :: "time_zone \<Rightarrow> JSDate \<Rightarrow> js_string \<Rightarrow> JSDate option" where
  "getDateOfBirth zone now idNumber' =
     (let result = parse zone now idNumber'
      in if valid result then Some (dateOfBirth result) else None)"

definition getGender :: "time_zone \<Rightarrow> JSDate \<Rightarrow> js_string \<Rightarrow> Gender option" where
  "getGender zone now idNumber' =
     (let result = parse zone now idNumber'
      in if valid result then Some (gender result) else None)"

definition getAge :: "time_zone \<Rightarrow> JSDate \<Rightarrow> js_string \<Rightarrow> int option" where
  "getAge zone now idNumber' =
     (let result = parse zone now idNumber'
      in if valid result then Some (age result) else None)"

definition getCitizenship :: "time_zone \<Rightarrow> JSDate \<Rightarrow> js_string \<Rightarrow> CitizenshipStatus option" where
  "getCitizenship zone now idNumber' =
     (let result = parse zone now idNumber'
      in if valid result then Some (citizenship result) else None)"

section \<open>The specification's vocabulary\<close>

text \<open>
  The predicates below follow the wording of the specification, not the code; the
  theorems compare them with the parser.
\<close>

text \<open>``Exactly 13 ASCII digits''.\<close>

definition is13Digits :: "js_string \<Rightarrow> bool" where
  "is13Digits s \<longleftrightarrow> length s = 13 \<and> list_all isDigit s"

text \<open>
  ``Resolve the two-digit year to 2000+YY when 2000+YY does not exceed the current
  calendar year, and to 1900+YY otherwise.''
\<close>

definition resolvedYear :: "JSDate \<Rightarrow> int \<Rightarrow> int" where
  "resolvedYear now yy = (if 2000 + yy \<le> getFullYear now then 2000 + yy else 1900 + yy)"

text \<open>
  ``The (year, month, day) triple is a real calendar date'', with the month counted
  from 1: thirty days have April, June, September and November, February has 28, or
  29 in a leap year, and the other months have 31.
\<close>

definition realCalendarDate :: "int \<Rightarrow> int \<Rightarrow> int \<Rightarrow> bool" where
  "realCalendarDate y m d \<longleftrightarrow>
     1 \<le> m \<and> m \<le> 12 \<and> 1 \<le> d \<and>
     d \<le> (if m = 2 then (if (y mod 4 = 0 \<and> y mod 100 \<noteq> 0) \<or> y mod 400 = 0 then 29 else 28)
          else if m = 4 \<or> m = 6 \<or> m = 9 \<or> m = 11 then 30
          else 31)"

text \<open>
  ``The date is strictly after the current date'': the day \<open>d\<close> of month \<open>m\<close> (counted
  from 1) of year \<open>y\<close> is a later day than the day of the clock's reading.
\<close>

definition afterToday :: "JSDate \<Rightarrow> int \<Rightarrow> int \<Rightarrow> int \<Rightarrow> bool" where
  "afterToday now y m d \<longleftrightarrow>
     getFullYear now < y \<or>
     (y = getFullYear now \<and>
       (getMonth now + 1 < m \<or> (m = getMonth now + 1 \<and> getDate now < d)))"

text \<open>
  The date check of the specification fails on a string of 13 digits: the month is
  outside 1..12, or the day is outside 1..31, or the triple is no real calendar date, or
  the date is in the future.
\<close>

definition invalidDate :: "JSDate \<Rightarrow> js_string \<Rightarrow> bool" where
  "invalidDate now idn \<longleftrightarrow>
     (let yy = decimal (slice idn 0 2);
          mm = decimal (slice idn 2 4);
          dd = decimal (slice idn 4 6);
          year = resolvedYear now yy
      in mm < 1 \<or> 12 < mm \<or> dd < 1 \<or> 31 < dd \<or>
         \<not> realCalendarDate year mm dd \<or> afterToday now year mm dd)"

text \<open>
  What the specification does not speak of: the host's local time has no day of the
  date that the first six digits name.
\<close>

definition birthDaySkipped :: "time_zone \<Rightarrow> JSDate \<Rightarrow> js_string \<Rightarrow> bool" where
  "birthDaySkipped zone now idn \<longleftrightarrow>
     0 < zone (resolvedYear now (decimal (slice idn 0 2)))
              (decimal (slice idn 2 4) - 1)
              (decimal (slice idn 4 6))"

text \<open>A reading of the clock for the examples: noon of 15 June 2025.\<close>

definition exampleNow :: JSDate where
  "exampleNow = \<lparr>getFullYear = 2025, getMonth = 5, getDate = 15, msSinceMidnight = 43200000\<rparr>"

section \<open>Properties of the string primitives\<close>

lemma isDigit_not_space: "isDigit c \<Longrightarrow> \<not> isWhiteSpace c"
  by (auto simp: isDigit_def isWhiteSpace_def word_le_def)

lemma isDigit_not_sign: "isDigit c \<Longrightarrow> c \<noteq> 0x2D \<and> c \<noteq> 0x2B"
  by (auto simp: isDigit_def word_le_def)

lemma digitValue_range: "isDigit c \<Longrightarrow> 0 \<le> digitValue c \<and> digitValue c \<le> 9"
  by (simp add: isDigit_def digitValue_def word_le_def)

lemma parseInt_unit:
  "parseInt [c] = (if isDigit c then Some (digitValue c) else None)"
proof (cases "isDigit c")
  case True
  then show ?thesis
    using isDigit_not_space [of c] isDigit_not_sign [of c]
    by (simp add: parseInt_def decimal_def)
next
  case False
  then show ?thesis
    by (simp add: parseInt_def Let_def)
qed

lemma matchDigits_iff:
  "matchDigits n s = Some r \<longleftrightarrow> n \<le> length s \<and> list_all isDigit (take n s) \<and> r = drop n s"
proof (induction n arbitrary: s)
  case 0
  then show ?case by auto
next
  case (Suc n)
  then show ?case by (cases s) auto
qed

lemma ID_REGEX_test_iff: "ID_REGEX_test s \<longleftrightarrow> length s = 13 \<and> list_all isDigit s"
  by (auto simp: ID_REGEX_test_def matchDigits_iff)

lemma parseInt_digits:
  assumes "list_all isDigit ds" "ds \<noteq> []"
  shows "parseInt ds = Some (decimal ds)"
proof -
  from assms obtain c cs where ds: "ds = c # cs" and c: "isDigit c"
    by (cases ds) auto
  have tw: "takeWhile isDigit cs = cs"
    using assms(1) by (simp add: list_all_iff ds)
  show ?thesis
    using c isDigit_not_space [OF c] isDigit_not_sign [OF c]
    by (simp add: parseInt_def ds tw)
qed

lemma decimal_snoc: "decimal (ds @ [c]) = decimal ds * 10 + digitValue c"
  by (simp add: decimal_def)

lemma decimal_bounds:
  "list_all isDigit ds \<Longrightarrow> 0 \<le> decimal ds \<and> decimal ds < 10 ^ length ds"
proof (induction ds rule: rev_induct)
  case Nil
  then show ?case by (simp add: decimal_def)
next
  case (snoc c ds)
  then have "0 \<le> decimal ds" "decimal ds < 10 ^ length ds" "isDigit c" by simp_all
  then show ?case
    using digitValue_range [of c] by (simp add: decimal_snoc)
qed

lemma slice_digits: "list_all isDigit s \<Longrightarrow> list_all isDigit (slice s a b)"
  by (auto simp: slice_def list_all_iff dest: in_set_takeD in_set_dropD)

lemma slice_length: "b \<le> length s \<Longrightarrow> length (slice s a b) = b - a"
  by (simp add: slice_def)

lemma trim_fixed:
  assumes "s \<noteq> []" "\<not> isWhiteSpace (hd s)" "\<not> isWhiteSpace (last s)"
  shows "trim s = s"
proof -
  have 1: "dropWhile isWhiteSpace s = s"
    using assms(1,2) by (cases s) auto
  have 2: "dropWhile isWhiteSpace (rev s) = rev s"
    using assms(1,3) by (cases "rev s") (auto simp: last_rev [symmetric])
  show ?thesis by (simp add: trim_def 1 2)
qed

lemma trim_digits: "list_all isDigit s \<Longrightarrow> trim s = s"
proof (cases "s = []")
  case True
  then show ?thesis by (simp add: trim_def)
next
  case False
  assume "list_all isDigit s"
  with False have "isDigit (hd s)" "isDigit (last s)"
    by (simp_all add: list_all_iff)
  then show ?thesis
    using False by (intro trim_fixed) (auto dest: isDigit_not_space)
qed

section \<open>Properties of the Luhn loop\<close>

lemma luhn_loop_inv:
  "n \<le> length digits \<Longrightarrow>
   luhn_loop digits n s dbl \<longleftrightarrow>
     (list_all isDigit (take n digits) \<and>
      (s + wsum dbl (map digitValue (rev (take n digits)))) mod 10 = 0)"
proof (induction n arbitrary: s dbl)
  case 0
  then show ?case by simp
next
  case (Suc n)
  then have n: "n < length digits" and le: "n \<le> length digits" by simp_all
  have tk: "take (Suc n) digits = take n digits @ [digits ! n]"
    using n by (simp add: take_Suc_conv_app_nth)
  show ?case
    using n Suc.IH [OF le]
    by (simp add: tk at_def parseInt_unit Let_def add.assoc mult.commute)
qed

lemma wsum_weight:
  "wsum dbl ds = (\<Sum>k < length ds. weight (k + (if dbl then 1 else 0)) (ds ! k))"
proof (induction ds arbitrary: dbl)
  case Nil
  then show ?case by simp
next
  case (Cons d ds)
  have "(\<Sum>k < length (d # ds). weight (k + (if dbl then 1 else 0)) ((d # ds) ! k)) =
        weight (if dbl then 1 else 0) d +
        (\<Sum>k < length ds. weight (Suc k + (if dbl then 1 else 0)) (ds ! k))"
    using sum.lessThan_Suc_shift [of "\<lambda>k. weight (k + (if dbl then 1 else 0)) ((d # ds) ! k)" "length ds"]
    by simp
  also have "\<dots> = wsum dbl (d # ds)"
    by (simp add: Cons.IH [of "\<not> dbl"] weight_def)
  finally show ?case by simp
qed

lemma wsum_weightedSum: "wsum False (map digitValue (rev s)) = weightedSum s"
  by (simp add: wsum_weight weightedSum_def)

section \<open>Properties of the date constructor\<close>

text \<open>
  The constructor on days and months out of range, as \<^verbatim>\<open>new Date(1990, 1, 30)\<close> (2 March
  1990), \<^verbatim>\<open>new Date(2000, 1, 30)\<close> (1 March 2000), \<^verbatim>\<open>new Date(1990, 0, 0)\<close> (31
  December 1989) and \<^verbatim>\<open>new Date(1990, 12, 1)\<close> (1 January 1991) give it.
\<close>

lemma makeDay_examples:
  "makeDay 1990 1 30 = (1990, 2, 2)"
  "makeDay 2000 1 30 = (2000, 2, 1)"
  "makeDay 1990 0 0 = (1989, 11, 31)"
  "makeDay 1990 12 1 = (1991, 0, 1)"
  by (simp_all add: makeDay.simps daysInMonth_def isLeapYear_def)

lemma makeDay_in_month:
  "0 \<le> m \<Longrightarrow> m \<le> 11 \<Longrightarrow> 1 \<le> d \<Longrightarrow> d \<le> daysInMonth y m \<Longrightarrow> makeDay y m d = (y, m, d)"
  by (subst makeDay.simps) simp

lemma daysInMonth_range: "28 \<le> daysInMonth y m \<and> daysInMonth y m \<le> 31"
  by (simp add: daysInMonth_def)

lemma makeDay_overflow:
  assumes "0 \<le> m" "m \<le> 11" "1 \<le> d" "d \<le> 31" "daysInMonth y m < d"
  shows "makeDay y m d = (y, m + 1, d - daysInMonth y m)"
proof -
  have m11: "m \<noteq> 11" using assms by (auto simp: daysInMonth_def)
  have "makeDay y m d = makeDay y (m + 1) (d - daysInMonth y m)"
    using assms m11 by (subst makeDay.simps) simp
  also have "\<dots> = (y, m + 1, d - daysInMonth y m)"
    using assms m11 daysInMonth_range [of y m] daysInMonth_range [of y "m + 1"]
    by (intro makeDay_in_month) auto
  finally show ?thesis .
qed

text \<open>
  From a day on or after the first of a month, \<open>makeDay\<close> only moves forward: it stays
  on the day it is given or ends in a later month.
\<close>

lemma makeDay_forward:
  "0 \<le> m \<Longrightarrow> m \<le> 11 \<Longrightarrow> 1 \<le> d \<Longrightarrow> makeDay y m d = (y', m', d') \<Longrightarrow>
     y < y' \<or> (y' = y \<and> m < m') \<or> (y' = y \<and> m' = m \<and> d' = d)"
proof (induction y m d rule: makeDay.induct)
  case (1 y m d)
  show ?case
  proof (cases "daysInMonth y m < d")
    case False
    then have "makeDay y m d = (y, m, d)"
      using "1.prems" by (intro makeDay_in_month) auto
    then show ?thesis using "1.prems"(4) by simp
  next
    case over: True
    have d1: "1 \<le> d - daysInMonth y m" using over by simp
    show ?thesis
    proof (cases "m = 11")
      case True
      have "makeDay y m d = makeDay (y + 1) 0 (d - daysInMonth y m)"
        using "1.prems" over True by (subst makeDay.simps) simp
      then have "makeDay (y + 1) 0 (d - daysInMonth y m) = (y', m', d')"
        using "1.prems"(4) by simp
      then have "y + 1 < y' \<or> (y' = y + 1 \<and> 0 < m') \<or> (y' = y + 1 \<and> m' = 0 \<and> d' = d - daysInMonth y m)"
        using "1.IH"(4) "1.prems" over True d1 by simp
      then show ?thesis by auto
    next
      case False
      have "makeDay y m d = makeDay y (m + 1) (d - daysInMonth y m)"
        using "1.prems" over False by (subst makeDay.simps) simp
      then have "makeDay y (m + 1) (d - daysInMonth y m) = (y', m', d')"
        using "1.prems"(4) by simp
      then have "y < y' \<or> (y' = y \<and> m + 1 < m') \<or>
          (y' = y \<and> m' = m + 1 \<and> d' = d - daysInMonth y m)"
        using "1.IH"(5) "1.prems" over False d1 by simp
      then show ?thesis by auto
    qed
  qed
qed

lemma newDate_fields_iff:
  assumes "0 \<le> m" "m \<le> 11" "1 \<le> d" "d \<le> 31" "100 \<le> year"
  shows "(getFullYear (newDate zone year m d) \<noteq> year \<or> getMonth (newDate zone year m d) \<noteq> m \<or>
          getDate (newDate zone year m d) \<noteq> d) \<longleftrightarrow>
         daysInMonth year m < d \<or> 0 < zone year m d"
proof (cases "daysInMonth year m < d")
  case True
  define k where "k = int (zone year (m + 1) (d - daysInMonth year m))"
  obtain y' m' d' where r: "makeDay year (m + 1) (d - daysInMonth year m + k) = (y', m', d')"
    by (cases "makeDay year (m + 1) (d - daysInMonth year m + k)") auto
  have m11: "m \<noteq> 11" using assms True by (auto simp: daysInMonth_def)
  have "year < y' \<or> (y' = year \<and> m + 1 < m') \<or>
      (y' = year \<and> m' = m + 1 \<and> d' = d - daysInMonth year m + k)"
    using makeDay_forward [OF _ _ _ r] assms m11 True by (simp add: k_def)
  then have "y' \<noteq> year \<or> m' \<noteq> m" by auto
  then show ?thesis
    using assms True r by (auto simp add: newDate_def makeDay_overflow k_def)
next
  case False
  define k where "k = int (zone year m d)"
  obtain y' m' d' where r: "makeDay year m (d + k) = (y', m', d')"
    by (cases "makeDay year m (d + k)") auto
  have fw: "year < y' \<or> (y' = year \<and> m < m') \<or> (y' = year \<and> m' = m \<and> d' = d + k)"
    using makeDay_forward [OF _ _ _ r] assms by (simp add: k_def)
  have nd: "newDate zone year m d =
      \<lparr>getFullYear = y', getMonth = m', getDate = d', msSinceMidnight = 0\<rparr>"
    using assms False r by (simp add: newDate_def makeDay_in_month k_def)
  show ?thesis
  proof (cases "0 < zone year m d")
    case True
    then have "0 < k" by (simp add: k_def)
    with fw have "y' \<noteq> year \<or> m' \<noteq> m \<or> d' \<noteq> d" by auto
    then show ?thesis using True by (auto simp add: nd)
  next
    case z: False
    then have "makeDay year m (d + k) = (year, m, d)"
      using assms False by (simp add: k_def makeDay_in_month)
    with r have "y' = year" "m' = m" "d' = d" by simp_all
    then show ?thesis using False z by (simp add: nd)
  qed
qed

section \<open>The parser on strings of 13 digits\<close>

lemma is13_slices:
  assumes "is13Digits idn" "a < b" "b \<le> 13"
  shows "list_all isDigit (slice idn a b)" "slice idn a b \<noteq> []" "length (slice idn a b) = b - a"
proof -
  show "list_all isDigit (slice idn a b)"
    using assms(1) by (simp add: is13Digits_def slice_digits)
  show len: "length (slice idn a b) = b - a"
    using assms by (simp add: is13Digits_def slice_length)
  show "slice idn a b \<noteq> []"
    using len assms(2) by auto
qed

lemma parseInt_slice:
  assumes "is13Digits idn" "a < b" "b \<le> 13"
  shows "parseInt (slice idn a b) = Some (decimal (slice idn a b))"
  using is13_slices [OF assms] by (simp add: parseInt_digits)

lemma decimal_slice_bounds:
  assumes "is13Digits idn" "a < b" "b \<le> 13"
  shows "0 \<le> decimal (slice idn a b)" "decimal (slice idn a b) < 10 ^ (b - a)"
  using is13_slices [OF assms] decimal_bounds [of "slice idn a b"] by simp_all

lemma realCalendarDate_daysInMonth:
  "1 \<le> m \<Longrightarrow> m \<le> 12 \<Longrightarrow> 1 \<le> d \<Longrightarrow> realCalendarDate y m d \<longleftrightarrow> d \<le> daysInMonth y (m - 1)"
  by (auto simp: realCalendarDate_def daysInMonth_def isLeapYear_def)

lemma laterThan_newDate:
  "laterThan \<lparr>getFullYear = y, getMonth = m - 1, getDate = d, msSinceMidnight = 0\<rparr> now
     \<longleftrightarrow> afterToday now y m d"
  by (auto simp: laterThan_def afterToday_def)

lemma resolveYear_spec: "resolveYear now yy = resolvedYear now yy"
  by (simp add: resolveYear_def resolvedYear_def)

lemma resolvedYear_ge: "0 \<le> yy \<Longrightarrow> 1900 \<le> resolvedYear now yy"
  by (simp add: resolvedYear_def)

lemma newDate_real:
  assumes "1 \<le> m" "m \<le> 12" "1 \<le> d" "d \<le> 31" "100 \<le> y" "realCalendarDate y m d"
    and "zone y (m - 1) d = 0"
  shows "newDate zone y (m - 1) d =
    \<lparr>getFullYear = y, getMonth = m - 1, getDate = d, msSinceMidnight = 0\<rparr>"
  using assms realCalendarDate_daysInMonth [of m d y]
  by (simp add: newDate_def makeDay_in_month)

lemma parseDate_13:
  assumes "is13Digits idn"
  shows "parseDate zone now (extractSegments idn) =
     (if invalidDate now idn \<or> birthDaySkipped zone now idn then None
      else Some \<lparr>getFullYear = resolvedYear now (decimal (slice idn 0 2)),
                 getMonth = decimal (slice idn 2 4) - 1,
                 getDate = decimal (slice idn 4 6),
                 msSinceMidnight = 0\<rparr>)"
proof -
  define yy where "yy = decimal (slice idn 0 2)"
  define mm where "mm = decimal (slice idn 2 4)"
  define dd where "dd = decimal (slice idn 4 6)"
  note yy_mm_dd_def = yy_def mm_def dd_def
  define year where "year = resolvedYear now yy"
  have p: "parseInt (slice idn 0 2) = Some yy" "parseInt (slice idn 2 4) = Some mm"
    "parseInt (slice idn 4 6) = Some dd"
    using assms by (simp_all add: parseInt_slice yy_mm_dd_def)
  have yy0: "0 \<le> yy" using decimal_slice_bounds(1) [OF assms, of 0 2] by (simp add: yy_mm_dd_def)
  then have y100: "100 \<le> year" using resolvedYear_ge [of yy now] by (simp add: year_def)
  have inv: "invalidDate now idn \<longleftrightarrow>
      mm < 1 \<or> 12 < mm \<or> dd < 1 \<or> 31 < dd \<or> \<not> realCalendarDate year mm dd \<or> afterToday now year mm dd"
    by (simp add: invalidDate_def Let_def yy_mm_dd_def year_def)
  have skp: "birthDaySkipped zone now idn \<longleftrightarrow> 0 < zone year (mm - 1) dd"
    by (simp add: birthDaySkipped_def yy_mm_dd_def year_def)
  have pd: "parseDate zone now (extractSegments idn) =
     (if mm < 1 \<or> mm > 12 then None
      else if dd < 1 \<or> dd > 31 then None
      else
        (let date = newDate zone year (mm - 1) dd
         in if getFullYear date \<noteq> year \<or> getMonth date \<noteq> mm - 1 \<or> getDate date \<noteq> dd
            then None
            else if laterThan date now then None
            else Some date))"
    by (simp add: parseDate_def extractSegments_def p resolveYear_spec year_def Let_def)
  show ?thesis
  proof (cases "mm < 1 \<or> 12 < mm \<or> dd < 1 \<or> 31 < dd")
    case True
    then show ?thesis unfolding pd using inv by auto
  next
    case rng: False
    then have r: "1 \<le> mm" "mm \<le> 12" "1 \<le> dd" "dd \<le> 31" by auto
    have rolled: "getFullYear (newDate zone year (mm - 1) dd) \<noteq> year \<or>
        getMonth (newDate zone year (mm - 1) dd) \<noteq> mm - 1 \<or>
        getDate (newDate zone year (mm - 1) dd) \<noteq> dd"
      if "daysInMonth year (mm - 1) < dd \<or> 0 < zone year (mm - 1) dd"
      using newDate_fields_iff [of "mm - 1" dd year zone] r y100 that by simp
    show ?thesis
    proof (cases "realCalendarDate year mm dd \<and> zone year (mm - 1) dd = 0")
      case True
      have nd: "newDate zone year (mm - 1) dd =
          \<lparr>getFullYear = year, getMonth = mm - 1, getDate = dd, msSinceMidnight = 0\<rparr>"
        using newDate_real [OF r y100] True by simp
      show ?thesis
        unfolding pd using rng True inv skp
        by (simp add: nd laterThan_newDate Let_def yy_mm_dd_def [symmetric] year_def [symmetric])
    next
      case False
      then have "daysInMonth year (mm - 1) < dd \<or> 0 < zone year (mm - 1) dd"
        using realCalendarDate_daysInMonth [of mm dd year] r by auto
      from rolled [OF this] show ?thesis
        unfolding pd using rng False inv skp by (auto simp add: Let_def)
    qed
  qed
qed


lemma js_digits: "js ''0'' = [0x30]" "js ''1'' = [0x31]" "js ''2'' = [0x32]"
  by (simp_all add: js_def)

lemma slice_unit: "i < length s \<Longrightarrow> slice s i (Suc i) = [s ! i]"
  by (simp add: slice_def take_Suc_conv_app_nth [of 0] hd_drop_conv_nth take_Suc)

lemma citizenshipDigit_13:
  assumes "is13Digits idn"
  shows "citizenshipDigit (extractSegments idn) = [idn ! 10]"
  using assms slice_unit [of 10 idn] by (simp add: extractSegments_def is13Digits_def)

lemma parse_format:
  "\<not> is13Digits (trim s) \<Longrightarrow> parse zone now s = InvalidID (trim s) INVALID_FORMAT"
  by (simp add: parse_def ID_REGEX_test_iff is13Digits_def invalid_def)

lemma parse_13:
  assumes "is13Digits (trim s)"
  shows "parse zone now s =
     (let idn = trim s
      in if invalidDate now idn \<or> birthDaySkipped zone now idn then InvalidID idn INVALID_DATE
         else if idn ! 10 \<noteq> 0x30 \<and> idn ! 10 \<noteq> 0x31 \<and> idn ! 10 \<noteq> 0x32
           then InvalidID idn INVALID_CITIZENSHIP_DIGIT
         else if \<not> luhn idn then InvalidID idn INVALID_CHECKSUM
         else
           (let dob = \<lparr>getFullYear = resolvedYear now (decimal (slice idn 0 2)),
                        getMonth = decimal (slice idn 2 4) - 1,
                        getDate = decimal (slice idn 4 6),
                        msSinceMidnight = 0\<rparr>
            in ParsedID idn dob (calculateAge now dob)
                 (if 5000 \<le> decimal (slice idn 6 10) then male else female)
                 (if idn ! 10 = 0x30 then citizen else permanent_resident)
                 (idn ! 10 = 0x30)
                 (extractSegments idn)))"
proof -
  have re: "ID_REGEX_test (trim s)"
    using assms by (simp add: ID_REGEX_test_iff is13Digits_def)
  have g: "parseInt (genderSequence (extractSegments (trim s))) = Some (decimal (slice (trim s) 6 10))"
    using parseInt_slice [OF assms, of 6 10] by (simp add: extractSegments_def)
  show ?thesis
    by (simp add: parse_def re parseDate_13 [OF assms] citizenshipDigit_13 [OF assms]
        js_digits g invalid_def Let_def)
qed

text \<open>
  When \<open>parse\<close> answers \<open>INVALID_DATE\<close>: the date check of the specification fails, or
  the host's local time has no such day. On a host whose zone skipped no day this is
  the date check of the specification.
\<close>

lemma parse_invalid_date_cases:
  assumes "is13Digits (trim s)"
  shows "parse zone now s = InvalidID (trim s) INVALID_DATE \<longleftrightarrow>
     invalidDate now (trim s) \<or> birthDaySkipped zone now (trim s)"
  by (simp add: parse_13 [OF assms] Let_def)

lemma parse_invalid_date_no_skipped_day:
  assumes "is13Digits (trim s)" and "\<And>y m d. zone y m d = 0"
  shows "parse zone now s = InvalidID (trim s) INVALID_DATE \<longleftrightarrow>
     (let yy = decimal (slice (trim s) 0 2);
          mm = decimal (slice (trim s) 2 4);
          dd = decimal (slice (trim s) 4 6);
          year = (if 2000 + yy \<le> getFullYear now then 2000 + yy else 1900 + yy)
      in mm < 1 \<or> 12 < mm \<or> dd < 1 \<or> 31 < dd \<or>
         \<not> realCalendarDate year mm dd \<or> afterToday now year mm dd)"
  using assms(2)
  by (simp add: parse_invalid_date_cases [OF assms(1)] birthDaySkipped_def invalidDate_def
      resolvedYear_def Let_def)

lemma parse_valid_iff:
  "valid (parse zone now s) \<longleftrightarrow>
     is13Digits (trim s) \<and> \<not> invalidDate now (trim s) \<and>
     \<not> birthDaySkipped zone now (trim s) \<and>
     (trim s ! 10 = 0x30 \<or> trim s ! 10 = 0x31 \<or> trim s ! 10 = 0x32) \<and> luhn (trim s)"
proof (cases "is13Digits (trim s)")
  case True
  then show ?thesis by (auto simp: parse_13 Let_def)
next
  case False
  then show ?thesis by (simp add: parse_format)
qed

lemma parse_valid_eq:
  assumes "valid (parse zone now s)"
  shows "parse zone now s =
     ParsedID (trim s)
       \<lparr>getFullYear = resolvedYear now (decimal (slice (trim s) 0 2)),
          getMonth = decimal (slice (trim s) 2 4) - 1,
          getDate = decimal (slice (trim s) 4 6),
          msSinceMidnight = 0\<rparr>
       (calculateAge now
          \<lparr>getFullYear = resolvedYear now (decimal (slice (trim s) 0 2)),
             getMonth = decimal (slice (trim s) 2 4) - 1,
             getDate = decimal (slice (trim s) 4 6),
             msSinceMidnight = 0\<rparr>)
       (if 5000 \<le> decimal (slice (trim s) 6 10) then male else female)
       (if trim s ! 10 = 0x30 then citizen else permanent_resident)
       (trim s ! 10 = 0x30)
       (extractSegments (trim s))"
proof -
  from assms have h: "is13Digits (trim s)" "\<not> invalidDate now (trim s)"
    "trim s ! 10 = 0x30 \<or> trim s ! 10 = 0x31 \<or> trim s ! 10 = 0x32" "luhn (trim s)"
    "\<not> birthDaySkipped zone now (trim s)"
    by (simp_all add: parse_valid_iff)
  show ?thesis
    using h(2,3,4,5) by (auto simp add: parse_13 [OF h(1)] Let_def)
qed

lemma parse_idNumber: "idNumber (parse zone now s) = trim s"
proof (cases "is13Digits (trim s)")
  case True
  then show ?thesis by (simp add: parse_13 Let_def)
next
  case False
  then show ?thesis by (simp add: parse_format)
qed

lemma is13Digits_trim: "is13Digits idn \<Longrightarrow> trim idn = idn"
  by (simp add: is13Digits_def trim_digits)

lemma segs_13:
  assumes "is13Digits idn"
  shows "genderSequence (extractSegments idn) = slice idn 6 10"
    and "citizenshipDigit (extractSegments idn) = [idn ! 10]"
  using citizenshipDigit_13 [OF assms] by (simp_all add: extractSegments_def)

lemma parse_trim_cong: "trim s' = trim s \<Longrightarrow> parse zone now s' = parse zone now s"
  by (simp add: parse_def)

lemma trim_idem: "trim (trim s) = trim s"
proof (cases "trim s = []")
  case True
  then show ?thesis by (simp add: trim_def [of "[]"])
next
  case False
  define t where "t = dropWhile isWhiteSpace s"
  define u where "u = dropWhile isWhiteSpace (rev t)"
  have ts: "trim s = rev u" by (simp add: trim_def t_def u_def)
  with False have u: "u \<noteq> []" by simp
  then have hu: "\<not> isWhiteSpace (hd u)"
    unfolding u_def by (rule hd_dropWhile)
  from u have t: "t \<noteq> []" by (auto simp: u_def)
  then have ht: "\<not> isWhiteSpace (hd t)"
    unfolding t_def by (rule hd_dropWhile)
  obtain p where p: "rev t = p @ u"
    unfolding u_def by (metis takeWhile_dropWhile_id)
  have "last u = last (rev t)" using u by (simp add: p)
  then have lu: "\<not> isWhiteSpace (last u)" using ht t by (simp add: last_rev)
  have "trim (rev u) = rev u"
    using u hu lu by (intro trim_fixed) (simp_all add: hd_rev last_rev)
  then show ?thesis by (simp add: ts)
qed

section \<open>The claims\<close>

text \<open>Unfolding rules for evaluating the functions on literal inputs.\<close>

lemmas ev = js_def trim_def isWhiteSpace_def isDigit_def is13Digits_def slice_def decimal_def
  digitValue_def exampleNow_def Let_def
lemmas ev_date = invalidDate_def resolvedYear_def realCalendarDate_def afterToday_def
  birthDaySkipped_def noSkippedDay_def Pacific_Apia_def
lemmas ev_luhn = luhn_def at_def parseInt_unit

subsection \<open>The order of the checks\<close>



subsection \<open>The Luhn check\<close>

text \<open>
  Claim C3. For every string \<open>s\<close>, \<open>luhn s\<close> is true exactly when every character of
  \<open>s\<close> is an ASCII digit and the weighted sum (scanning from the right, every second
  digit from the second-last doubled, minus 9 when the doubled value exceeds 9) is
  divisible by 10. In particular \<open>luhn\<close> is true on the empty string and false on every
  string with a character that is not an ASCII digit.
\<close>

theorem luhn_weighted_sum:
  "(luhn s \<longleftrightarrow> list_all isDigit s \<and> weightedSum s mod 10 = 0) \<and>
   luhn [] \<and>
   (\<not> list_all isDigit s \<longrightarrow> \<not> luhn s)"
proof -
  have "luhn s \<longleftrightarrow> list_all isDigit s \<and> weightedSum s mod 10 = 0" for s
    using luhn_loop_inv [of "length s" s 0 False]
    by (simp add: luhn_def wsum_weightedSum)
  then show ?thesis by (simp add: weightedSum_def)
qed

theorem luhn_weighted_sum_witness:
  "luhn (js ''9001049818080'') \<and> weightedSum (js ''9001049818080'') = 50 \<and>
   \<not> luhn (js ''9001049818081'') \<and> weightedSum (js ''9001049818081'') = 51 \<and>
   \<not> list_all isDigit (js ''900104981808A'') \<and> \<not> luhn (js ''900104981808A'')"
  using luhn_weighted_sum [of "js ''9001049818080''"]
    luhn_weighted_sum [of "js ''9001049818081''"]
    luhn_weighted_sum [of "js ''900104981808A''"]
  by (simp add: ev weightedSum_def weight_def lessThan_nat_numeral lessThan_Suc)

subsection \<open>The date check\<close>

text \<open>
  Claim C2. For every input whose trimmed form is exactly 13 ASCII digits, \<open>parse\<close>
  returns the \<open>InvalidID\<close> with reason \<open>INVALID_DATE\<close> if and only if the month (digits
  3 and 4) is outside 1..12, or the day (digits 5 and 6) is outside 1..31, or year,
  month and day are no real calendar date, where the two-digit year YY stands for
  2000+YY when that does not exceed the current calendar year and for 1900+YY
  otherwise, or that date is strictly after the current date.

  The code does not keep to this on a host whose time zone skipped a local day. The
  input \<^verbatim>\<open>1112305000087\<close> names the 30th of December 2011, a real calendar date in the
  past, with month and day in range. On a host in \<^verbatim>\<open>Pacific/Apia\<close>, where that local
  day does not exist, \<^verbatim>\<open>new Date(2011, 11, 30)\<close> is the 31st, the guard against rolled
  over dates fires, and \<open>parse\<close> answers \<open>INVALID_DATE\<close>; on a host whose zone skipped
  no day the same input is valid.
\<close>

theorem parse_rejects_day_skipped_by_zone:
  "parse Pacific_Apia exampleNow (js ''1112305000087'') =
     InvalidID (js ''1112305000087'') INVALID_DATE \<and>
   is13Digits (trim (js ''1112305000087'')) \<and>
   decimal (slice (trim (js ''1112305000087'')) 0 2) = 11 \<and>
   decimal (slice (trim (js ''1112305000087'')) 2 4) = 12 \<and>
   decimal (slice (trim (js ''1112305000087'')) 4 6) = 30 \<and>
   resolvedYear exampleNow 11 = 2011 \<and>
   realCalendarDate 2011 12 30 \<and>
   \<not> afterToday exampleNow 2011 12 30 \<and>
   valid (parse noSkippedDay exampleNow (js ''1112305000087''))"
proof -
  have t: "trim (js ''1112305000087'') = js ''1112305000087''"
    by (simp add: ev)
  have d: "is13Digits (trim (js ''1112305000087''))"
    unfolding t by (simp add: ev)
  have a: "parse Pacific_Apia exampleNow (js ''1112305000087'') =
      InvalidID (js ''1112305000087'') INVALID_DATE"
    unfolding parse_invalid_date_cases [OF d, of Pacific_Apia exampleNow, unfolded t]
    by (simp add: ev ev_date)
  have v: "valid (parse noSkippedDay exampleNow (js ''1112305000087''))"
    unfolding parse_valid_iff t by (simp add: ev ev_date ev_luhn)
  from a d v show ?thesis
    by (simp add: t) (simp add: ev ev_date)
qed

subsection \<open>The format check\<close>

text \<open>
  Claim C4. For every string whose form after stripping leading and trailing white
  space is not exactly 13 ASCII digits (the empty string, a string too short or too
  long, a string with a character that is not a digit), \<open>parse\<close> returns the
  \<open>InvalidID\<close> with reason \<open>INVALID_FORMAT\<close>.
\<close>

theorem parse_invalid_format:
  assumes "\<not> is13Digits (trim s)"
  shows "parse zone now s = InvalidID (trim s) INVALID_FORMAT"
  using assms by (rule parse_format)

theorem parse_invalid_format_witness:
  "parse noSkippedDay exampleNow [] = InvalidID [] INVALID_FORMAT \<and>
   parse noSkippedDay exampleNow (js ''900104981808'') = InvalidID (js ''900104981808'') INVALID_FORMAT \<and>
   parse noSkippedDay exampleNow (js ''90010498180800'') = InvalidID (js ''90010498180800'') INVALID_FORMAT \<and>
   parse noSkippedDay exampleNow (js ''9001049818O80'') = InvalidID (js ''9001049818O80'') INVALID_FORMAT \<and>
   parse noSkippedDay exampleNow (js '' bad  '') = InvalidID (js ''bad'') INVALID_FORMAT"
proof -
  have 1: "parse noSkippedDay exampleNow [] = InvalidID [] INVALID_FORMAT"
    using parse_invalid_format
      [where s = "[]" and now = exampleNow and zone = noSkippedDay]
    by (simp add: ev)
  have 2: "parse noSkippedDay exampleNow (js ''900104981808'') = InvalidID (js ''900104981808'') INVALID_FORMAT"
    using parse_invalid_format
      [where s = "js ''900104981808''" and now = exampleNow and zone = noSkippedDay]
    by (simp add: ev)
  have 3: "parse noSkippedDay exampleNow (js ''90010498180800'') =
      InvalidID (js ''90010498180800'') INVALID_FORMAT"
    using parse_invalid_format
      [where s = "js ''90010498180800''" and now = exampleNow and zone = noSkippedDay]
    by (simp add: ev)
  have 4: "parse noSkippedDay exampleNow (js ''9001049818O80'') = InvalidID (js ''9001049818O80'') INVALID_FORMAT"
    using parse_invalid_format
      [where s = "js ''9001049818O80''" and now = exampleNow and zone = noSkippedDay]
    by (simp add: ev)
  have 5: "parse noSkippedDay exampleNow (js '' bad  '') = InvalidID (js ''bad'') INVALID_FORMAT"
    using parse_invalid_format
      [where s = "js '' bad  ''" and now = exampleNow and zone = noSkippedDay]
    by (simp add: ev)
  from 1 2 3 4 5 show ?thesis by blast
qed

subsection \<open>The derived fields\<close>

text \<open>
  Claim C5. For every input on which all four checks pass, the gender of the outcome
  is \<open>male\<close> if and only if the four-digit gender sequence, parsed as an integer, is at
  least 5000, and \<open>female\<close> otherwise; the citizenship is \<open>citizen\<close> if and only if
  the citizenship digit is \<^verbatim>\<open>0\<close>, and the digits \<^verbatim>\<open>1\<close> and \<^verbatim>\<open>2\<close> both give
  \<open>permanent_resident\<close>; \<open>isCitizen\<close> is true if and only if the citizenship digit is
  \<^verbatim>\<open>0\<close>.
\<close>

theorem parse_gender_citizenship:
  assumes "valid (parse zone now s)"
  shows "parseInt (genderSequence (segments (parse zone now s))) =
           Some (decimal (genderSequence (segments (parse zone now s)))) \<and>
         (gender (parse zone now s) = male \<longleftrightarrow>
            5000 \<le> decimal (genderSequence (segments (parse zone now s)))) \<and>
         (gender (parse zone now s) = female \<longleftrightarrow>
            decimal (genderSequence (segments (parse zone now s))) < 5000) \<and>
         (citizenship (parse zone now s) = citizen \<longleftrightarrow>
            citizenshipDigit (segments (parse zone now s)) = js ''0'') \<and>
         (citizenship (parse zone now s) = permanent_resident \<longleftrightarrow>
            citizenshipDigit (segments (parse zone now s)) = js ''1'' \<or>
            citizenshipDigit (segments (parse zone now s)) = js ''2'') \<and>
         (isCitizen (parse zone now s) \<longleftrightarrow> citizenshipDigit (segments (parse zone now s)) = js ''0'') \<and>
         genderSequence (segments (parse zone now s)) = slice (trim s) 6 10 \<and>
         citizenshipDigit (segments (parse zone now s)) = slice (trim s) 10 11"
proof -
  from assms have h: "is13Digits (trim s)"
    "trim s ! 10 = 0x30 \<or> trim s ! 10 = 0x31 \<or> trim s ! 10 = 0x32"
    by (simp_all add: parse_valid_iff)
  have g: "parseInt (slice (trim s) 6 10) = Some (decimal (slice (trim s) 6 10))"
    using parseInt_slice [OF h(1), of 6 10] by simp
  have c: "slice (trim s) 10 11 = [trim s ! 10]"
    using segs_13(2) [OF h(1)] by (simp add: extractSegments_def)
  show ?thesis
    using h(2) by (auto simp add: parse_valid_eq [OF assms] segs_13 [OF h(1)] g c js_digits)
qed

theorem parse_gender_citizenship_witness:
  "gender (parse noSkippedDay exampleNow (js ''9001049818080'')) = male \<and>
   citizenship (parse noSkippedDay exampleNow (js ''9001049818080'')) = citizen \<and>
   isCitizen (parse noSkippedDay exampleNow (js ''9001049818080'')) \<and>
   gender (parse noSkippedDay exampleNow (js ''7805050050082'')) = female \<and>
   citizenship (parse noSkippedDay exampleNow (js ''8001015009186'')) = permanent_resident \<and>
   \<not> isCitizen (parse noSkippedDay exampleNow (js ''8001015009186'')) \<and>
   citizenship (parse noSkippedDay exampleNow (js ''8001015009285'')) = permanent_resident"
proof -
  have v4: "valid (parse noSkippedDay exampleNow (js ''8001015009285''))"
    by (simp add: parse_valid_iff ev ev_date ev_luhn)
  have s4: "slice (trim (js ''8001015009285'')) 10 11 = js ''2''"
    by (simp add: ev)
  have 4: "citizenship (parse noSkippedDay exampleNow (js ''8001015009285'')) = permanent_resident"
    using parse_gender_citizenship [OF v4] by (auto simp add: s4 js_digits)
  have v1: "valid (parse noSkippedDay exampleNow (js ''9001049818080''))"
    by (simp add: parse_valid_iff ev ev_date ev_luhn)
  have v2: "valid (parse noSkippedDay exampleNow (js ''7805050050082''))"
    by (simp add: parse_valid_iff ev ev_date ev_luhn)
  have v3: "valid (parse noSkippedDay exampleNow (js ''8001015009186''))"
    by (simp add: parse_valid_iff ev ev_date ev_luhn)
  have p: "decimal (js ''9818'') = 9818" "decimal (js ''0050'') = 50"
    by (simp_all add: ev)
  have s1: "slice (trim (js ''9001049818080'')) 6 10 = js ''9818''"
    "slice (trim (js ''9001049818080'')) 10 11 = js ''0''"
    by (simp_all add: ev)
  have s2: "slice (trim (js ''7805050050082'')) 6 10 = js ''0050''"
    by (simp add: ev)
  have s3: "slice (trim (js ''8001015009186'')) 10 11 = js ''1''"
    by (simp add: ev)
  have 1: "gender (parse noSkippedDay exampleNow (js ''9001049818080'')) = male \<and>
      citizenship (parse noSkippedDay exampleNow (js ''9001049818080'')) = citizen \<and>
      isCitizen (parse noSkippedDay exampleNow (js ''9001049818080''))"
    using parse_gender_citizenship [OF v1] by (auto simp add: s1 p js_digits)
  have 2: "gender (parse noSkippedDay exampleNow (js ''7805050050082'')) = female"
    using parse_gender_citizenship [OF v2] by (auto simp add: s2 p js_digits)
  have 3: "citizenship (parse noSkippedDay exampleNow (js ''8001015009186'')) = permanent_resident \<and>
      \<not> isCitizen (parse noSkippedDay exampleNow (js ''8001015009186''))"
    using parse_gender_citizenship [OF v3] by (auto simp add: s3 js_digits)
  from 1 2 3 4 show ?thesis by blast
qed

text \<open>
  Claim C6. For every valid outcome, the age is the current year minus the resolved
  birth year, less one exactly when the current (month, day) is earlier than the birth
  (month, day); it is never negative, and on the birthday itself the birthday counts as
  having occurred.
\<close>

theorem parse_age:
  assumes "valid (parse zone now s)"
  shows "age (parse zone now s) =
           getFullYear now - getFullYear (dateOfBirth (parse zone now s)) -
           (if getMonth now < getMonth (dateOfBirth (parse zone now s)) \<or>
               (getMonth now = getMonth (dateOfBirth (parse zone now s)) \<and>
                getDate now < getDate (dateOfBirth (parse zone now s)))
            then 1 else 0) \<and>
         0 \<le> age (parse zone now s) \<and>
         getFullYear (dateOfBirth (parse zone now s)) = resolveYear now (decimal (slice (trim s) 0 2)) \<and>
         getMonth (dateOfBirth (parse zone now s)) = decimal (slice (trim s) 2 4) - 1 \<and>
         getDate (dateOfBirth (parse zone now s)) = decimal (slice (trim s) 4 6)"
proof -
  from assms have h: "is13Digits (trim s)" "\<not> invalidDate now (trim s)"
    by (simp_all add: parse_valid_iff)
  define y m d where "y = resolvedYear now (decimal (slice (trim s) 0 2))"
    and "m = decimal (slice (trim s) 2 4)" and "d = decimal (slice (trim s) 4 6)"
  have nf: "\<not> afterToday now y m d"
    using h(2) by (simp add: invalidDate_def Let_def y_def m_def d_def)
  have eq: "parse zone now s = ParsedID (trim s)
       \<lparr>getFullYear = y, getMonth = m - 1, getDate = d, msSinceMidnight = 0\<rparr>
       (calculateAge now \<lparr>getFullYear = y, getMonth = m - 1, getDate = d, msSinceMidnight = 0\<rparr>)
       (if 5000 \<le> decimal (slice (trim s) 6 10) then male else female)
       (if trim s ! 10 = 0x30 then citizen else permanent_resident)
       (trim s ! 10 = 0x30)
       (extractSegments (trim s))"
    using parse_valid_eq [OF assms] by (simp add: y_def m_def d_def)
  show ?thesis
    using nf
    by (auto simp add: eq calculateAge_def afterToday_def Let_def resolveYear_spec y_def m_def d_def)
qed

theorem parse_age_witness:
  "age (parse noSkippedDay exampleNow (js ''9001049818080'')) = 35 \<and>
   age (parse noSkippedDay exampleNow (js ''9006159818085'')) = 35 \<and>
   age (parse noSkippedDay exampleNow (js ''9006169818083'')) = 34 \<and>
   age (parse noSkippedDay exampleNow (js ''2506159818081'')) = 0"
proof -
  have v1: "valid (parse noSkippedDay exampleNow (js ''9001049818080''))"
    by (simp add: parse_valid_iff ev ev_date ev_luhn)
  have v2: "valid (parse noSkippedDay exampleNow (js ''9006159818085''))"
    by (simp add: parse_valid_iff ev ev_date ev_luhn)
  have v3: "valid (parse noSkippedDay exampleNow (js ''9006169818083''))"
    by (simp add: parse_valid_iff ev ev_date ev_luhn)
  have v4: "valid (parse noSkippedDay exampleNow (js ''2506159818081''))"
    by (simp add: parse_valid_iff ev ev_date ev_luhn)
  have 1: "age (parse noSkippedDay exampleNow (js ''9001049818080'')) = 35"
    using parse_age [OF v1] by (simp add: ev resolveYear_def)
  have 2: "age (parse noSkippedDay exampleNow (js ''9006159818085'')) = 35"
    using parse_age [OF v2] by (simp add: ev resolveYear_def)
  have 3: "age (parse noSkippedDay exampleNow (js ''9006169818083'')) = 34"
    using parse_age [OF v3] by (simp add: ev resolveYear_def)
  have 4: "age (parse noSkippedDay exampleNow (js ''2506159818081'')) = 0"
    using parse_age [OF v4] by (simp add: ev resolveYear_def)
  from 1 2 3 4 show ?thesis by blast
qed

subsection \<open>The accessors\<close>

text \<open>
  Claim C7. For every string, \<open>isValid\<close> is true exactly when the outcome of \<open>parse\<close>
  is valid, and each of \<open>getDateOfBirth\<close>, \<open>getGender\<close>, \<open>getAge\<close> and
  \<open>getCitizenship\<close> returns the field of that name of the outcome of \<open>parse\<close> when it
  is valid and \<^verbatim>\<open>null\<close> (here \<open>None\<close>) when it is invalid: every accessor agrees with a
  direct call of \<open>parse\<close> on the same input.
\<close>

theorem accessors_agree_with_parse:
  "isValid zone now s = valid (parse zone now s) \<and>
   getDateOfBirth zone now s =
     (case parse zone now s of ParsedID i d a g c b sg \<Rightarrow> Some d | InvalidID i r \<Rightarrow> None) \<and>
   getGender zone now s =
     (case parse zone now s of ParsedID i d a g c b sg \<Rightarrow> Some g | InvalidID i r \<Rightarrow> None) \<and>
   getAge zone now s =
     (case parse zone now s of ParsedID i d a g c b sg \<Rightarrow> Some a | InvalidID i r \<Rightarrow> None) \<and>
   getCitizenship zone now s =
     (case parse zone now s of ParsedID i d a g c b sg \<Rightarrow> Some c | InvalidID i r \<Rightarrow> None)"
  by (cases "parse zone now s")
     (simp_all add: isValid_def getDateOfBirth_def getGender_def getAge_def getCitizenship_def)

theorem accessors_agree_with_parse_witness:
  "isValid noSkippedDay exampleNow (js ''9001049818080'') \<and>
   getDateOfBirth noSkippedDay exampleNow (js ''9001049818080'') =
     Some \<lparr>getFullYear = 1990, getMonth = 0, getDate = 4, msSinceMidnight = 0\<rparr> \<and>
   getGender noSkippedDay exampleNow (js ''9001049818080'') = Some male \<and>
   getAge noSkippedDay exampleNow (js ''9001049818080'') = Some 35 \<and>
   getCitizenship noSkippedDay exampleNow (js ''9001049818080'') = Some citizen \<and>
   \<not> isValid noSkippedDay exampleNow (js ''invalid'') \<and>
   getDateOfBirth noSkippedDay exampleNow (js ''invalid'') = None \<and>
   getGender noSkippedDay exampleNow (js ''invalid'') = None \<and>
   getAge noSkippedDay exampleNow (js ''invalid'') = None \<and>
   getCitizenship noSkippedDay exampleNow (js ''invalid'') = None"
proof -
  have v: "valid (parse noSkippedDay exampleNow (js ''9001049818080''))"
    by (simp add: parse_valid_iff ev ev_date ev_luhn)
  have p: "parse noSkippedDay exampleNow (js ''9001049818080'') =
      ParsedID (js ''9001049818080'')
        \<lparr>getFullYear = 1990, getMonth = 0, getDate = 4, msSinceMidnight = 0\<rparr> 35 male citizen True
        (extractSegments (js ''9001049818080''))"
    unfolding parse_valid_eq [OF v] by (simp add: ev resolvedYear_def calculateAge_def)
  have q: "parse noSkippedDay exampleNow (js ''invalid'') = InvalidID (js ''invalid'') INVALID_FORMAT"
    by (simp add: parse_format ev)
  show ?thesis
    using accessors_agree_with_parse
      [where s = "js ''9001049818080''" and now = exampleNow and zone = noSkippedDay]
      accessors_agree_with_parse
        [where s = "js ''invalid''" and now = exampleNow and zone = noSkippedDay]
    by (simp add: p q)
qed

subsection \<open>The raw segments\<close>

text \<open>
  Claim C8. For every valid outcome the seven raw segments have the widths 2, 2, 2, 4,
  1, 1 and 1 (year, month, day, gender sequence, citizenship digit, legacy digit,
  checksum digit), and joined in that order they are the trimmed input. Segments reach
  the caller only in a valid outcome: an invalid outcome is the \<open>InvalidID\<close> of the
  trimmed input and a reason, and nothing else.
\<close>

theorem segments_reassemble:
  "(valid (parse zone now s) \<longrightarrow>
      length (yearPart (segments (parse zone now s))) = 2 \<and>
      length (monthPart (segments (parse zone now s))) = 2 \<and>
      length (dayPart (segments (parse zone now s))) = 2 \<and>
      length (genderSequence (segments (parse zone now s))) = 4 \<and>
      length (citizenshipDigit (segments (parse zone now s))) = 1 \<and>
      length (legacyDigit (segments (parse zone now s))) = 1 \<and>
      length (checksumDigit (segments (parse zone now s))) = 1 \<and>
      yearPart (segments (parse zone now s)) @ monthPart (segments (parse zone now s)) @
      dayPart (segments (parse zone now s)) @ genderSequence (segments (parse zone now s)) @
      citizenshipDigit (segments (parse zone now s)) @ legacyDigit (segments (parse zone now s)) @
      checksumDigit (segments (parse zone now s)) = trim s) \<and>
   (\<not> valid (parse zone now s) \<longrightarrow>
      parse zone now s = InvalidID (trim s) (reason (parse zone now s)))"
proof (intro conjI impI)
  assume v: "valid (parse zone now s)"
  then have h: "length (trim s) = 13"
    by (simp add: parse_valid_iff is13Digits_def)
  have sg: "segments (parse zone now s) = extractSegments (trim s)"
    by (simp add: parse_valid_eq [OF v])
  show "length (yearPart (segments (parse zone now s))) = 2"
    "length (monthPart (segments (parse zone now s))) = 2"
    "length (dayPart (segments (parse zone now s))) = 2"
    "length (genderSequence (segments (parse zone now s))) = 4"
    "length (citizenshipDigit (segments (parse zone now s))) = 1"
    "length (legacyDigit (segments (parse zone now s))) = 1"
    "length (checksumDigit (segments (parse zone now s))) = 1"
    using h by (simp_all add: sg extractSegments_def slice_length)
  have j: "take 2 xs @ take 2 (drop 2 xs) @ take 2 (drop 4 xs) @ take 4 (drop 6 xs) @
      take 1 (drop 10 xs) @ take 1 (drop 11 xs) @ take 1 (drop 12 xs) = take 13 xs"
    for xs :: js_string
  proof -
    have "take 13 xs = take (2 + (2 + (2 + (4 + (1 + (1 + 1)))))) (drop 0 xs)" by simp
    also have "\<dots> = take 2 (drop 0 xs) @ take 2 (drop 2 xs) @ take 2 (drop 4 xs) @
        take 4 (drop 6 xs) @ take 1 (drop 10 xs) @ take 1 (drop 11 xs) @ take 1 (drop 12 xs)"
      unfolding take_add by simp
    finally show ?thesis by simp
  qed
  show "yearPart (segments (parse zone now s)) @ monthPart (segments (parse zone now s)) @
      dayPart (segments (parse zone now s)) @ genderSequence (segments (parse zone now s)) @
      citizenshipDigit (segments (parse zone now s)) @ legacyDigit (segments (parse zone now s)) @
      checksumDigit (segments (parse zone now s)) = trim s"
    using h j [of "trim s"] by (simp add: sg extractSegments_def slice_def)
next
  assume "\<not> valid (parse zone now s)"
  then show "parse zone now s = InvalidID (trim s) (reason (parse zone now s))"
    using parse_idNumber [of zone now s] by (cases "parse zone now s") simp_all
qed


theorem segments_reassemble_witness:
  "yearPart (segments (parse noSkippedDay exampleNow (js ''  9001049818080 ''))) @
   monthPart (segments (parse noSkippedDay exampleNow (js ''  9001049818080 ''))) @
   dayPart (segments (parse noSkippedDay exampleNow (js ''  9001049818080 ''))) @
   genderSequence (segments (parse noSkippedDay exampleNow (js ''  9001049818080 ''))) @
   citizenshipDigit (segments (parse noSkippedDay exampleNow (js ''  9001049818080 ''))) @
   legacyDigit (segments (parse noSkippedDay exampleNow (js ''  9001049818080 ''))) @
   checksumDigit (segments (parse noSkippedDay exampleNow (js ''  9001049818080 ''))) = js ''9001049818080'' \<and>
   length (genderSequence (segments (parse noSkippedDay exampleNow (js ''  9001049818080 '')))) = 4 \<and>
   parse noSkippedDay exampleNow (js ''9001049818081'') =
     InvalidID (js ''9001049818081'') (reason (parse noSkippedDay exampleNow (js ''9001049818081'')))"
proof -
  have t: "trim (js ''  9001049818080 '') = js ''9001049818080''"
    "trim (js ''9001049818081'') = js ''9001049818081''"
    by (simp_all add: ev)
  have v: "valid (parse noSkippedDay exampleNow (js ''  9001049818080 ''))"
    unfolding parse_valid_iff t by (simp add: ev ev_date ev_luhn)
  have n: "\<not> valid (parse noSkippedDay exampleNow (js ''9001049818081''))"
    unfolding parse_valid_iff t by (simp add: ev ev_date ev_luhn)
  show ?thesis
    using segments_reassemble
      [where s = "js ''  9001049818080 ''" and now = exampleNow and zone = noSkippedDay]
      segments_reassemble
        [where s = "js ''9001049818081''" and now = exampleNow and zone = noSkippedDay]
      v n
    by (simp add: t)
qed

subsection \<open>The stored number and the round trip\<close>

text \<open>
  Claim C9. For every input and a fixed reading of the clock, the \<open>idNumber\<close> of the
  outcome, valid or invalid, is the input with leading and trailing white space
  stripped; and when the outcome is valid, \<open>parse\<close> on that stored \<open>idNumber\<close> gives the
  same outcome again.
\<close>

theorem parse_idempotent:
  "idNumber (parse zone now s) = trim s \<and>
   (valid (parse zone now s) \<longrightarrow> parse zone now (idNumber (parse zone now s)) = parse zone now s)"
  using parse_trim_cong [of "trim s" s zone now]
  by (simp add: parse_idNumber trim_idem)

theorem parse_idempotent_witness:
  "idNumber (parse noSkippedDay exampleNow (js ''  9001049818080 '')) = js ''9001049818080'' \<and>
   idNumber (parse noSkippedDay exampleNow (js '' bad '')) = js ''bad'' \<and>
   parse noSkippedDay exampleNow (js ''9001049818080'') = parse noSkippedDay exampleNow (js ''  9001049818080 '')"
proof -
  have t: "trim (js ''  9001049818080 '') = js ''9001049818080''"
    "trim (js '' bad '') = js ''bad''"
    by (simp_all add: ev)
  have v: "valid (parse noSkippedDay exampleNow (js ''  9001049818080 ''))"
    unfolding parse_valid_iff t by (simp add: ev ev_date ev_luhn)
  have a: "idNumber (parse noSkippedDay exampleNow (js ''  9001049818080 '')) = js ''9001049818080''"
    using parse_idempotent
      [where s = "js ''  9001049818080 ''" and now = exampleNow and zone = noSkippedDay]
    by (simp add: t)
  have b: "parse noSkippedDay exampleNow (idNumber (parse noSkippedDay exampleNow (js ''  9001049818080 ''))) =
      parse noSkippedDay exampleNow (js ''  9001049818080 '')"
    using parse_idempotent
      [where s = "js ''  9001049818080 ''" and now = exampleNow and zone = noSkippedDay]
    v by blast
  have c: "idNumber (parse noSkippedDay exampleNow (js '' bad '')) = js ''bad''"
    using parse_idempotent
      [where s = "js '' bad ''" and now = exampleNow and zone = noSkippedDay]
    by (simp add: t)
  from a b c show ?thesis by simp
qed

subsection \<open>No \<^verbatim>\<open>NaN\<close> after the format check\<close>

text \<open>
  Claim C10. For every input whose trimmed form is exactly 13 ASCII digits,
  \<^verbatim>\<open>parseInt\<close> of the year, month, day and gender-sequence segments is a number, never
  \<^verbatim>\<open>NaN\<close>: the \<^verbatim>\<open>isNaN\<close> branch of \<open>parseDate\<close> cannot be taken, and the comparison
  with 5000 on the valid path is a comparison of numbers.
\<close>

theorem parseInt_never_NaN:
  assumes "is13Digits (trim s)"
  shows "parseInt (yearPart (extractSegments (trim s))) =
           Some (decimal (yearPart (extractSegments (trim s)))) \<and>
         parseInt (monthPart (extractSegments (trim s))) =
           Some (decimal (monthPart (extractSegments (trim s)))) \<and>
         parseInt (dayPart (extractSegments (trim s))) =
           Some (decimal (dayPart (extractSegments (trim s)))) \<and>
         parseInt (genderSequence (extractSegments (trim s))) =
           Some (decimal (genderSequence (extractSegments (trim s)))) \<and>
         (valid (parse zone now s) \<longrightarrow>
            parseInt (genderSequence (segments (parse zone now s))) \<noteq> None)"
proof -
  have g: "parseInt (genderSequence (extractSegments (trim s))) =
      Some (decimal (genderSequence (extractSegments (trim s))))"
    using parseInt_slice [OF assms, of 6 10] by (simp add: extractSegments_def)
  have "valid (parse zone now s) \<longrightarrow> segments (parse zone now s) = extractSegments (trim s)"
    by (auto simp: parse_valid_eq)
  then show ?thesis
    using parseInt_slice [OF assms, of 0 2] parseInt_slice [OF assms, of 2 4]
      parseInt_slice [OF assms, of 4 6] g
    by (auto simp: extractSegments_def)
qed

theorem parseInt_never_NaN_witness:
  "parseInt (js ''90'') = Some 90 \<and> parseInt (js ''01'') = Some 1 \<and>
   parseInt (js ''04'') = Some 4 \<and> parseInt (js ''9818'') = Some 9818 \<and>
   parseInt (genderSequence (segments (parse noSkippedDay exampleNow (js ''9001049818080'')))) \<noteq> None"
proof -
  have t: "trim (js ''9001049818080'') = js ''9001049818080''"
    by (simp add: ev)
  have d: "is13Digits (trim (js ''9001049818080''))"
    unfolding t by (simp add: ev)
  have v: "valid (parse noSkippedDay exampleNow (js ''9001049818080''))"
    unfolding parse_valid_iff t by (simp add: ev ev_date ev_luhn)
  have e: "extractSegments (js ''9001049818080'') =
      \<lparr>yearPart = js ''90'', monthPart = js ''01'', dayPart = js ''04'',
        genderSequence = js ''9818'', citizenshipDigit = js ''0'', legacyDigit = js ''8'',
        checksumDigit = js ''0''\<rparr>"
    by (simp add: extractSegments_def ev)
  have n: "decimal (js ''90'') = 90" "decimal (js ''01'') = 1" "decimal (js ''04'') = 4"
    "decimal (js ''9818'') = 9818"
    by (simp_all add: ev)
  show ?thesis
    using parseInt_never_NaN [OF d, where now = exampleNow and zone = noSkippedDay] v
    by (simp add: t e n)
qed

end
